theory Spec2Isabelle
  imports Main
begin

section \<open>Terminal code execution: the embedding\<close>

text \<open>
  The class \<open>TerminalCodeExecutionProvider\<close> of
  \<open>src/client/terminals/codeExecution/terminalCodeExecution.ts\<close>.

  A \<open>Uri\<close> is represented by its \<open>fsPath\<close>; an optional resource (\<open>resource?: Uri\<close>) is a
  \<open>string option\<close>. JavaScript strings are modelled as \<open>string\<close>, one \<open>char\<close> per code unit,
  so code units above 255 are outside the model.
\<close>

subsection \<open>String primitives of the host language\<close>

definition backslash :: char where
  "backslash = CHR 0x5C"

text \<open>\<open>interpreterPath.replace(/\\/g, '/')\<close>: every backslash becomes a forward slash.\<close>

definition replaceBackslashes :: "string \<Rightarrow> string" where
  "replaceBackslashes p = map (\<lambda>c. if c = backslash then CHR ''/'' else c) p"

text \<open>
  White space as \<open>String.prototype.trim\<close> sees it, restricted to code units below 256:
  TAB, LF, VT, FF, CR, SPACE and NBSP.
\<close>

definition isWhiteSpace :: "char \<Rightarrow> bool" where
  "isWhiteSpace c =
     (c = CHR 0x09 \<or> c = CHR 0x0A \<or> c = CHR 0x0B \<or> c = CHR 0x0C \<or> c = CHR 0x0D
      \<or> c = CHR 0x20 \<or> c = CHR 0xA0)"

definition trim :: "string \<Rightarrow> string" where
  "trim s = rev (dropWhile isWhiteSpace (rev (dropWhile isWhiteSpace s)))"

text \<open>The line terminators that \<open>.\<close> of a regular expression does not match (below 256).\<close>

definition isLineTerminator :: "char \<Rightarrow> bool" where
  "isLineTerminator c = (c = CHR 0x0A \<or> c = CHR 0x0D)"

definition isAsciiLetter :: "char \<Rightarrow> bool" where
  "isAsciiLetter c =
     (let n = (of_char c :: nat) in (97 \<le> n \<and> n \<le> 122) \<or> (65 \<le> n \<and> n \<le> 90))"

text \<open>\<open>/[a-z]\:/i.test(p)\<close>: somewhere in \<open>p\<close> a letter is directly followed by a colon.\<close>

fun hasDriveLetter :: "string \<Rightarrow> bool" where
  "hasDriveLetter (a # b # cs) = ((isAsciiLetter a \<and> b = CHR '':'') \<or> hasDriveLetter (b # cs))"
| "hasDriveLetter _ = False"

text \<open>
  \<open>p.replace(/\:.*/g, '')\<close>: each colon is removed together with the rest of its line; the
  scan goes on behind the match.
\<close>

function stripFromColon :: "string \<Rightarrow> string" where
  "stripFromColon [] = []"
| "stripFromColon (c # cs) =
     (if c = CHR '':'' then stripFromColon (dropWhile (\<lambda>d. \<not> isLineTerminator d) cs)
      else c # stripFromColon cs)"
  by pat_completeness auto
termination
  by (relation "measure length") (auto simp: le_imp_less_Suc length_dropWhile_le)

subsection \<open>External collaborators\<close>

text \<open>\<open>pythonSettings\<close>, with the fields of \<open>pythonSettings.terminal\<close> flattened.\<close>

record settings =
  pythonPath :: string
  launchArgs :: "string list"
  executeInFileDir :: bool

text \<open>
  What the injected services answer. \<open>getActiveInterpreter\<close> gives the \<open>path\<close> of the active
  interpreter when there is one. \<open>getTerminalService\<close> gives the identity of the terminal
  service that the factory returns for a resource. \<open>dirname\<close> is \<open>path.dirname\<close> and
  \<open>fileToCommandArgumentForPythonExt\<close> the quoting extension on strings; neither is part
  of this file.
\<close>

record env =
  isWindows :: bool
  rootPath :: "string option"
  getSettings :: "string option \<Rightarrow> settings"
  getActiveInterpreter :: "string option \<Rightarrow> string option"
  getTerminalService :: "string option \<Rightarrow> nat"
  dirname :: "string \<Rightarrow> string"
  fileToCommandArgumentForPythonExt :: "string \<Rightarrow> string"

record pythonExecInfo =
  command :: string
  args :: "string list"

text \<open>
  Modelled from the spec: \<open>buildPythonExecInfo\<close> of \<open>pythonEnvironments/exec\<close> is not among the
  sources. The spec's executable descriptor has a command path and an ordered list of string
  arguments, and the builder is taken to store the two values it is given.
\<close>

definition buildPythonExecInfo :: "string \<Rightarrow> string list \<Rightarrow> pythonExecInfo" where
  "buildPythonExecInfo c as = \<lparr> command = c, args = as \<rparr>"

subsection \<open>Controller state\<close>

text \<open>A call on a terminal service, tagged with the resource the service was requested for.\<close>

datatype event =
    SendText "string option" string
  | SendCommand "string option" string "string list"
  | Show "string option"

text \<open>What the caller of \<open>initializeRepl\<close> does once it returns: nothing more, or line 47.\<close>

datatype cont = Return | SendCode "string option" string

text \<open>
  The suspended computations of the controller:
  \<^item> \<open>AwaitExisting resource terminalService h k\<close>: \<open>initializeRepl\<close> at \<open>await replActive\<close> in line 52;
  \<^item> \<open>AwaitShow k\<close>: \<open>initializeRepl\<close> at \<open>await terminalService.show()\<close> in line 53;
  \<^item> \<open>AwaitLaunched h k\<close>: \<open>initializeRepl\<close> at \<open>await replActive\<close> in line 70;
  \<^item> \<open>Launcher resource h pythonSettings interpreter\<close>: the promise executor at
    \<open>await this.getExecutableInfo(resource)\<close> in line 57, itself suspended in line 75;
  \<^item> \<open>Timer h\<close>: the pending \<open>setTimeout\<close> of line 61.
\<close>

datatype task =
    AwaitExisting "string option" nat nat cont
  | AwaitShow cont
  | AwaitLaunched nat cont
  | Launcher "string option" nat settings "string option"
  | Timer nat

text \<open>
  A promise of \<open>replActive\<close> is an index into \<open>promises\<close>: \<open>None\<close> while unsettled,
  \<open>Some v\<close> once resolved with \<open>v\<close>. \<open>closeHandlers\<close> are the listeners given to
  \<open>onDidCloseTerminal\<close>: the terminal service and the key the listener deletes.
\<close>

record state =
  hasRanOutsideCurrentDrive :: bool
  replActive :: "string \<rightharpoonup> nat"
  promises :: "bool option list"
  closeHandlers :: "(nat \<times> string) list"
  pending :: "task list"
  terminalLog :: "event list"

definition initialState :: state where
  "initialState = \<lparr> hasRanOutsideCurrentDrive = False, replActive = Map.empty, promises = [],
     closeHandlers = [], pending = [], terminalLog = [] \<rparr>"

text \<open>\<open>resource?.fsPath || ''\<close>.\<close>

definition key :: "string option \<Rightarrow> string" where
  "key resource = (case resource of None \<Rightarrow> [] | Some fsPath \<Rightarrow> if fsPath = [] then [] else fsPath)"

definition emit :: "event \<Rightarrow> state \<Rightarrow> state" where
  "emit ev s = s\<lparr> terminalLog := terminalLog s @ [ev] \<rparr>"

definition suspend :: "task list \<Rightarrow> state \<Rightarrow> state" where
  "suspend ts s = s\<lparr> pending := pending s @ ts \<rparr>"

definition promiseState :: "state \<Rightarrow> nat \<Rightarrow> bool option" where
  "promiseState s h = (if h < length (promises s) then promises s ! h else None)"

subsection \<open>Executable resolution (lines 73 to 85)\<close>

text \<open>
  \<open>getExecutableInfo\<close> behind its \<open>await\<close>: \<open>pythonSettings\<close> was read before it, the
  interpreter is the awaited answer, the platform is read now.
\<close>

definition execInfo :: "bool \<Rightarrow> settings \<Rightarrow> string option \<Rightarrow> string list \<Rightarrow> pythonExecInfo" where
  "execInfo windows pythonSettings interpreter as =
     (let interpreterPath = (case interpreter of Some p \<Rightarrow> p | None \<Rightarrow> pythonPath pythonSettings);
          cmd = (if windows then replaceBackslashes interpreterPath else interpreterPath)
      in buildPythonExecInfo cmd (launchArgs pythonSettings @ as))"

definition getExecutableInfo :: "env \<Rightarrow> string option \<Rightarrow> string list \<Rightarrow> pythonExecInfo" where
  "getExecutableInfo e resource as =
     execInfo (isWindows e) (getSettings e resource) (getActiveInterpreter e resource) as"

definition getExecuteFileArgs :: "env \<Rightarrow> string option \<Rightarrow> string list \<Rightarrow> pythonExecInfo" where
  "getExecuteFileArgs e resource executeArgs = getExecutableInfo e resource executeArgs"

subsection \<open>File execution (lines 32 to 39 and 92 to 112)\<close>

text \<open>
  A file execution is followed through its awaits in one piece: the awaited sends are
  taken to complete, and its calls are logged in program order.
\<close>

definition setCwdForFileExecution :: "env \<Rightarrow> string \<Rightarrow> state \<Rightarrow> state" where
  "setCwdForFileExecution e file s =
     (if \<not> executeInFileDir (getSettings e (Some file)) then s
      else
        let fileDirPath = dirname e file in
        if length fileDirPath > 0 then
          let s1 =
            (if isWindows e \<and> hasDriveLetter fileDirPath then
               let currentDrive = map_option stripFromColon (rootPath e);
                   fileDrive = stripFromColon fileDirPath
               in if Some fileDrive \<noteq> currentDrive \<or> hasRanOutsideCurrentDrive s
                  then emit (SendText (Some file) (fileDrive @ '':''))
                         (s\<lparr> hasRanOutsideCurrentDrive := True \<rparr>)
                  else s
             else s)
          in emit (SendText (Some file)
                    (''cd '' @ fileToCommandArgumentForPythonExt e fileDirPath)) s1
        else s)"

definition executeFile :: "env \<Rightarrow> string \<Rightarrow> state \<Rightarrow> state" where
  "executeFile e file s =
     (let s1 = setCwdForFileExecution e file s;
          info = getExecuteFileArgs e (Some file) [fileToCommandArgumentForPythonExt e file]
      in emit (SendCommand (Some file) (command info) (args info)) s1)"

subsection \<open>The REPL registry (lines 41 to 71)\<close>

text \<open>
  Lines 56 to 70. The executor of the new promise runs at once up to its first \<open>await\<close>;
  then the promise is stored under the key, the close listener is registered, and
  \<open>initializeRepl\<close> suspends on the promise.
\<close>

definition launch :: "env \<Rightarrow> string option \<Rightarrow> nat \<Rightarrow> cont \<Rightarrow> state \<Rightarrow> state" where
  "launch e resource terminalService k s =
     (let h = length (promises s) in
      s\<lparr> promises := promises s @ [None],
         replActive := (replActive s)(key resource \<mapsto> h),
         closeHandlers := closeHandlers s @ [(terminalService, key resource)],
         pending := pending s @
           [Launcher resource h (getSettings e resource) (getActiveInterpreter e resource),
            AwaitLaunched h k] \<rparr>)"

text \<open>A call of \<open>initializeRepl\<close>, up to its first suspension.\<close>

definition initializeRepl :: "env \<Rightarrow> string option \<Rightarrow> cont \<Rightarrow> state \<Rightarrow> state" where
  "initializeRepl e resource k s =
     (let terminalService = getTerminalService e resource in
      case replActive s (key resource) of
        Some h \<Rightarrow> suspend [AwaitExisting resource terminalService h k] s
      | None \<Rightarrow> launch e resource terminalService k s)"

text \<open>A call of \<open>execute\<close>, up to its first suspension. Line 46 passes no resource.\<close>

definition execute :: "env \<Rightarrow> string \<Rightarrow> string option \<Rightarrow> state \<Rightarrow> state" where
  "execute e code resource s =
     (if code = [] \<or> length (trim code) = 0 then s
      else initializeRepl e None (SendCode resource code) s)"

text \<open>\<open>initializeRepl\<close> returns to its caller.\<close>

fun finish :: "cont \<Rightarrow> state \<Rightarrow> state" where
  "finish Return s = s"
| "finish (SendCode resource code) s = emit (SendText resource code) s"

text \<open>
  A suspended computation runs to its next suspension; \<open>None\<close> when what it waits for has
  not happened yet.
\<close>

fun resume :: "env \<Rightarrow> task \<Rightarrow> state \<Rightarrow> state option" where
  "resume e (AwaitExisting resource terminalService h k) s =
     (case promiseState s h of
        None \<Rightarrow> None
      | Some v \<Rightarrow>
          Some (if v then suspend [AwaitShow k] (emit (Show resource) s)
                else launch e resource terminalService k s))"
| "resume e (AwaitShow k) s = Some (finish k s)"
| "resume e (AwaitLaunched h k) s =
     (case promiseState s h of None \<Rightarrow> None | Some v \<Rightarrow> Some (finish k s))"
| "resume e (Launcher resource h pythonSettings interpreter) s =
     (let replCommandArgs = execInfo (isWindows e) pythonSettings interpreter []
      in Some (suspend [Timer h]
           (emit (SendCommand resource (command replCommandArgs) (args replCommandArgs)) s)))"
| "resume e (Timer h) s = Some (s\<lparr> promises := (promises s)[h := Some True] \<rparr>)"

text \<open>The terminal of a service was closed: each listener registered on it deletes its key.\<close>

definition closeTerminal :: "nat \<Rightarrow> state \<Rightarrow> state" where
  "closeTerminal terminalService s =
     s\<lparr> replActive :=
          fold (\<lambda>(t, k) m. if t = terminalService then m(k := None) else m)
            (closeHandlers s) (replActive s) \<rparr>"

subsection \<open>Schedules\<close>

datatype op =
    CallExecuteFile string
  | CallExecute string "string option"
  | CallInitializeRepl "string option"
  | Resume nat
  | CloseTerminal nat

text \<open>
  One step of the event loop, with the collaborators' answers at that moment. \<open>Resume i\<close>
  continues the \<open>i\<close>-th suspended computation and does nothing when there is none or it
  still has to wait.
\<close>

fun step :: "env \<Rightarrow> op \<Rightarrow> state \<Rightarrow> state" where
  "step e (CallExecuteFile file) s = executeFile e file s"
| "step e (CallExecute code resource) s = execute e code resource s"
| "step e (CallInitializeRepl resource) s = initializeRepl e resource Return s"
| "step e (Resume i) s =
     (if i < length (pending s) then
        (case resume e (pending s ! i)
                (s\<lparr> pending := take i (pending s) @ drop (Suc i) (pending s) \<rparr>) of
           None \<Rightarrow> s
         | Some s' \<Rightarrow> s')
      else s)"
| "step e (CloseTerminal terminalService) s = closeTerminal terminalService s"

definition run :: "(env \<times> op) list \<Rightarrow> state \<Rightarrow> state" where
  "run sched s = fold (\<lambda>(e, x). step e x) sched s"

subsection \<open>Counting launches\<close>

text \<open>The commands of the log that were sent for a key: start commands and run commands.\<close>

fun isCommandFor :: "string \<Rightarrow> event \<Rightarrow> bool" where
  "isCommandFor K (SendCommand resource c as) = (key resource = K)"
| "isCommandFor K _ = False"

definition commandsFor :: "string \<Rightarrow> state \<Rightarrow> nat" where
  "commandsFor K s = length (filter (isCommandFor K) (terminalLog s))"

text \<open>The launches of a key that still wait to send their start command.\<close>

fun isLauncherFor :: "string \<Rightarrow> task \<Rightarrow> bool" where
  "isLauncherFor K (Launcher resource h pythonSettings interpreter) = (key resource = K)"
| "isLauncherFor K _ = False"

definition launchersFor :: "string \<Rightarrow> state \<Rightarrow> nat" where
  "launchersFor K s = length (filter (isLauncherFor K) (pending s))"

text \<open>The file executions of a schedule for a key; each sends one run command.\<close>

fun fileRun :: "string \<Rightarrow> op \<Rightarrow> nat" where
  "fileRun K (CallExecuteFile file) = (if key (Some file) = K then 1 else 0)"
| "fileRun K _ = 0"

fun fileRuns :: "string \<Rightarrow> (env \<times> op) list \<Rightarrow> nat" where
  "fileRuns K [] = 0"
| "fileRuns K ((e, x) # sched) = fileRun K x + fileRuns K sched"

text \<open>
  A step keeps a key's terminal open unless it closes a terminal that has a listener for
  the key. A schedule is \<open>quiet\<close> for a key from a state when every step of it, in the
  state it is taken in, keeps the key's terminal open.
\<close>

fun keeps :: "string \<Rightarrow> op \<Rightarrow> state \<Rightarrow> bool" where
  "keeps K (CloseTerminal terminalService) s = ((terminalService, K) \<notin> set (closeHandlers s))"
| "keeps K _ s = True"

fun quiet :: "string \<Rightarrow> (env \<times> op) list \<Rightarrow> state \<Rightarrow> bool" where
  "quiet K [] s = True"
| "quiet K ((e, x) # sched) s = (keeps K x s \<and> quiet K sched (step e x s))"

subsection \<open>Sample configurations\<close>

definition sampleSettings :: settings where
  "sampleSettings = \<lparr> pythonPath = ''python'', launchArgs = [''-i''], executeInFileDir = True \<rparr>"

text \<open>
  A non-Windows host without an active interpreter. Its factory has one terminal service
  for calls without a resource and one for the files of the workspace folder.
\<close>

definition sampleEnv :: env where
  "sampleEnv = \<lparr> isWindows = False, rootPath = None,
     getSettings = (\<lambda>r. sampleSettings),
     getActiveInterpreter = (\<lambda>r. None),
     getTerminalService = (\<lambda>r. if r = None then 0 else 1),
     dirname = (\<lambda>p. p),
     fileToCommandArgumentForPythonExt = (\<lambda>p. p) \<rparr>"

definition sampleInterpreter :: string where
  "sampleInterpreter = ''C:'' @ [backslash] @ ''py'' @ [backslash] @ ''python.exe''"

definition sampleRoot :: string where
  "sampleRoot = ''C:'' @ [backslash] @ ''proj''"

definition sampleRootLower :: string where
  "sampleRootLower = ''c:'' @ [backslash] @ ''proj''"

definition sampleFileC :: string where
  "sampleFileC = ''C:'' @ [backslash] @ ''proj'' @ [backslash] @ ''b.py''"

definition sampleFileD :: string where
  "sampleFileD = ''D:'' @ [backslash] @ ''data'' @ [backslash] @ ''a.py''"

text \<open>Everything before the last backslash.\<close>

definition sampleDirname :: "string \<Rightarrow> string" where
  "sampleDirname p = rev (drop 1 (dropWhile (\<lambda>c. c \<noteq> backslash) (rev p)))"

text \<open>A Windows host with an active interpreter and the given workspace root.\<close>

definition sampleWinEnv :: "string option \<Rightarrow> env" where
  "sampleWinEnv root = \<lparr> isWindows = True, rootPath = root,
     getSettings = (\<lambda>r. sampleSettings),
     getActiveInterpreter = (\<lambda>r. Some sampleInterpreter),
     getTerminalService = (\<lambda>r. if r = None then 0 else 1),
     dirname = sampleDirname,
     fileToCommandArgumentForPythonExt = (\<lambda>p. p) \<rparr>"

text \<open>
  Schedules around two calls of \<open>initializeRepl\<close> for \<open>a.py\<close>: before them a call without
  a resource; between them the launcher of \<open>a.py\<close> resumes, the terminal of the calls
  without a resource closes and the file \<open>a.py\<close> is executed; after them the timer of
  \<open>a.py\<close> fires and both calls run to their end.
\<close>

definition sampleBefore :: "(env \<times> op) list" where
  "sampleBefore = [(sampleEnv, CallInitializeRepl None)]"

definition sampleBetween :: "(env \<times> op) list" where
  "sampleBetween =
     [(sampleEnv, Resume 2), (sampleEnv, CloseTerminal 0), (sampleEnv, CallExecuteFile ''a.py'')]"

definition sampleAfter :: "(env \<times> op) list" where
  "sampleAfter =
     [(sampleEnv, Resume 3), (sampleEnv, Resume 2), (sampleEnv, Resume 2), (sampleEnv, Resume 2)]"

subsection \<open>Invariants of the registry\<close>

fun launcherHandles :: "task list \<Rightarrow> nat list" where
  "launcherHandles [] = []"
| "launcherHandles (Launcher resource h pythonSettings interpreter # ts) = h # launcherHandles ts"
| "launcherHandles (t # ts) = launcherHandles ts"

text \<open>
  What every step keeps: a suspended launcher holds an unsettled promise; launchers hold
  different promises; a timer's promise has no launcher left; registered promises exist;
  and no promise is resolved with \<open>false\<close>.
\<close>

definition promiseInv :: "state \<Rightarrow> bool" where
  "promiseInv s \<longleftrightarrow>
     (\<forall>r h st ip. Launcher r h st ip \<in> set (pending s) \<longrightarrow>
        h < length (promises s) \<and> promises s ! h = None)
     \<and> distinct (launcherHandles (pending s))
     \<and> (\<forall>h. Timer h \<in> set (pending s) \<longrightarrow>
          h < length (promises s) \<and> h \<notin> set (launcherHandles (pending s)))
     \<and> (\<forall>K h. replActive s K = Some h \<longrightarrow> h < length (promises s))
     \<and> (\<forall>h < length (promises s). promises s ! h \<noteq> Some False)"

text \<open>
  What holds of a key while its terminal stays open: its promise stays registered, and the
  commands sent for it together with its waiting launchers change by file executions only.
\<close>

definition launchInv :: "string \<Rightarrow> nat \<Rightarrow> nat \<Rightarrow> state \<Rightarrow> bool" where
  "launchInv K h c s \<longleftrightarrow> replActive s K = Some h \<and> commandsFor K s + launchersFor K s = c"

text \<open>Every waiting launcher of the key holds the registered promise.\<close>

definition soleLauncher :: "string \<Rightarrow> nat \<Rightarrow> state \<Rightarrow> bool" where
  "soleLauncher K h s \<longleftrightarrow>
     (\<forall>r h' st ip. Launcher r h' st ip \<in> set (pending s) \<longrightarrow> key r = K \<longrightarrow> h' = h)"

section \<open>Properties\<close>

subsection \<open>Strings\<close>

lemma all_dropWhile: "(\<forall>x\<in>set (dropWhile P xs). P x) \<longleftrightarrow> (\<forall>x\<in>set xs. P x)"
  by (induction xs) auto

lemma trim_empty_iff: "trim code = [] \<longleftrightarrow> (\<forall>c\<in>set code. isWhiteSpace c)"
  by (simp add: trim_def dropWhile_eq_Nil_conv all_dropWhile)

lemma stripFromColon_takeWhile:
  "\<forall>c\<in>set p. \<not> isLineTerminator c \<Longrightarrow> stripFromColon p = takeWhile (\<lambda>c. c \<noteq> CHR '':'') p"
proof (induction p rule: stripFromColon.induct)
  case 1
  then show ?case by simp
next
  case (2 c cs)
  show ?case
  proof (cases "c = CHR '':''")
    case True
    from 2(3) have dw: "dropWhile (\<lambda>d. \<not> isLineTerminator d) cs = []" by simp
    have "stripFromColon (c # cs) = stripFromColon (dropWhile (\<lambda>d. \<not> isLineTerminator d) cs)"
      using True by simp
    also have "\<dots> = []" by (simp only: dw stripFromColon.simps)
    finally show ?thesis using True by simp
  next
    case False
    with 2 show ?thesis by simp
  qed
qed

subsection \<open>The drive flag is never cleared\<close>

lemma flag_setCwd:
  "hasRanOutsideCurrentDrive s \<Longrightarrow> hasRanOutsideCurrentDrive (setCwdForFileExecution e f s)"
  by (simp add: setCwdForFileExecution_def emit_def Let_def)

lemma flag_executeFile:
  "hasRanOutsideCurrentDrive s \<Longrightarrow> hasRanOutsideCurrentDrive (executeFile e f s)"
  by (simp add: executeFile_def emit_def Let_def flag_setCwd)

lemma flag_launch [simp]:
  "hasRanOutsideCurrentDrive (launch e r t k s) = hasRanOutsideCurrentDrive s"
  by (simp add: launch_def Let_def)

lemma flag_initializeRepl [simp]:
  "hasRanOutsideCurrentDrive (initializeRepl e r k s) = hasRanOutsideCurrentDrive s"
  by (simp add: initializeRepl_def suspend_def Let_def split: option.splits)

lemma flag_execute [simp]:
  "hasRanOutsideCurrentDrive (execute e c r s) = hasRanOutsideCurrentDrive s"
  by (simp add: execute_def)

lemma flag_finish [simp]:
  "hasRanOutsideCurrentDrive (finish k s) = hasRanOutsideCurrentDrive s"
  by (cases k) (simp_all add: emit_def)

lemma flag_resume:
  "resume e t s = Some s' \<Longrightarrow> hasRanOutsideCurrentDrive s' = hasRanOutsideCurrentDrive s"
  by (cases t) (auto simp: emit_def suspend_def Let_def split: option.splits if_splits)

lemma flag_step:
  "hasRanOutsideCurrentDrive s \<Longrightarrow> hasRanOutsideCurrentDrive (step e x s)"
  by (cases x) (auto simp: flag_executeFile closeTerminal_def dest: flag_resume split: option.splits)

lemma flag_run:
  "hasRanOutsideCurrentDrive s \<Longrightarrow> hasRanOutsideCurrentDrive (run sched s)"
  unfolding run_def
  by (induction sched arbitrary: s) (auto simp: flag_step)

subsection \<open>The registry invariants are kept\<close>

lemma launcherHandles_append [simp]:
  "launcherHandles (xs @ ys) = launcherHandles xs @ launcherHandles ys"
  by (induction xs rule: launcherHandles.induct) simp_all

lemma launcherHandles_set:
  "h \<in> set (launcherHandles ts) \<longleftrightarrow> (\<exists>r st ip. Launcher r h st ip \<in> set ts)"
  by (induction ts rule: launcherHandles.induct) auto

lemma promiseInv_initial: "promiseInv initialState"
  by (simp add: promiseInv_def initialState_def)

lemma promiseInv_launcher:
  "promiseInv s \<Longrightarrow> Launcher r h st ip \<in> set (pending s) \<Longrightarrow>
     h < length (promises s) \<and> promises s ! h = None"
  unfolding promiseInv_def by blast

lemma promiseInv_distinct: "promiseInv s \<Longrightarrow> distinct (launcherHandles (pending s))"
  unfolding promiseInv_def by blast

lemma promiseInv_timer:
  "promiseInv s \<Longrightarrow> Timer h \<in> set (pending s) \<Longrightarrow>
     h < length (promises s) \<and> h \<notin> set (launcherHandles (pending s))"
  unfolding promiseInv_def by blast

lemma promiseInv_handle: "promiseInv s \<Longrightarrow> replActive s K = Some h \<Longrightarrow> h < length (promises s)"
  unfolding promiseInv_def by blast

lemma promiseInv_true: "promiseInv s \<Longrightarrow> h < length (promises s) \<Longrightarrow> promises s ! h \<noteq> Some False"
  unfolding promiseInv_def by blast

lemma promiseInvI:
  assumes "\<And>r h st ip. Launcher r h st ip \<in> set (pending s) \<Longrightarrow>
             h < length (promises s) \<and> promises s ! h = None"
    and "distinct (launcherHandles (pending s))"
    and "\<And>h. Timer h \<in> set (pending s) \<Longrightarrow>
             h < length (promises s) \<and> h \<notin> set (launcherHandles (pending s))"
    and "\<And>K h. replActive s K = Some h \<Longrightarrow> h < length (promises s)"
    and "\<And>h. h < length (promises s) \<Longrightarrow> promises s ! h \<noteq> Some False"
  shows "promiseInv s"
  unfolding promiseInv_def using assms by blast

text \<open>The invariant reads three fields only.\<close>

lemma promiseInv_cong:
  assumes "promiseInv s" and "pending s' = pending s" and "promises s' = promises s"
    and "replActive s' = replActive s"
  shows "promiseInv s'"
  using assms unfolding promiseInv_def by simp

lemma launch_fields [simp]:
  "promises (launch e r t k s) = promises s @ [None]"
  "replActive (launch e r t k s) = (replActive s)(key r \<mapsto> length (promises s))"
  "pending (launch e r t k s) = pending s @
     [Launcher r (length (promises s)) (getSettings e r) (getActiveInterpreter e r),
      AwaitLaunched (length (promises s)) k]"
  "terminalLog (launch e r t k s) = terminalLog s"
  "closeHandlers (launch e r t k s) = closeHandlers s @ [(t, key r)]"
  by (simp_all add: launch_def Let_def)

lemma emit_fields [simp]:
  "promises (emit ev s) = promises s"
  "replActive (emit ev s) = replActive s"
  "pending (emit ev s) = pending s"
  "terminalLog (emit ev s) = terminalLog s @ [ev]"
  "closeHandlers (emit ev s) = closeHandlers s"
  by (simp_all add: emit_def)

lemma suspend_fields [simp]:
  "promises (suspend ts s) = promises s"
  "replActive (suspend ts s) = replActive s"
  "pending (suspend ts s) = pending s @ ts"
  "terminalLog (suspend ts s) = terminalLog s"
  "closeHandlers (suspend ts s) = closeHandlers s"
  by (simp_all add: suspend_def)

lemma finish_fields [simp]:
  "promises (finish k s) = promises s"
  "replActive (finish k s) = replActive s"
  "pending (finish k s) = pending s"
  "closeHandlers (finish k s) = closeHandlers s"
  by (cases k; simp)+

lemma setCwd_fields [simp]:
  "promises (setCwdForFileExecution e f s) = promises s"
  "replActive (setCwdForFileExecution e f s) = replActive s"
  "pending (setCwdForFileExecution e f s) = pending s"
  "closeHandlers (setCwdForFileExecution e f s) = closeHandlers s"
  by (simp_all add: setCwdForFileExecution_def Let_def)

lemma executeFile_fields [simp]:
  "promises (executeFile e f s) = promises s"
  "replActive (executeFile e f s) = replActive s"
  "pending (executeFile e f s) = pending s"
  "closeHandlers (executeFile e f s) = closeHandlers s"
  by (simp_all add: executeFile_def Let_def)

lemma promiseInv_launch:
  assumes inv: "promiseInv s"
  shows "promiseInv (launch e r t k s)"
proof (rule promiseInvI)
  have fresh: "length (promises s) \<notin> set (launcherHandles (pending s))"
    using promiseInv_launcher [OF inv] by (auto simp: launcherHandles_set)
  show "h < length (promises (launch e r t k s)) \<and> promises (launch e r t k s) ! h = None"
    if "Launcher r' h st ip \<in> set (pending (launch e r t k s))" for r' h st ip
  proof -
    from that consider "Launcher r' h st ip \<in> set (pending s)" | "h = length (promises s)"
      by auto
    then show ?thesis
    proof cases
      case 1
      with promiseInv_launcher [OF inv 1] show ?thesis by (simp add: nth_append)
    next
      case 2
      then show ?thesis by simp
    qed
  qed
  show "distinct (launcherHandles (pending (launch e r t k s)))"
    using promiseInv_distinct [OF inv] fresh by simp
  show "h < length (promises (launch e r t k s))
      \<and> h \<notin> set (launcherHandles (pending (launch e r t k s)))"
    if "Timer h \<in> set (pending (launch e r t k s))" for h
  proof -
    from that have "Timer h \<in> set (pending s)" by simp
    from promiseInv_timer [OF inv this] show ?thesis by auto
  qed
  show "h < length (promises (launch e r t k s))"
    if "replActive (launch e r t k s) K' = Some h" for K' h
    using that promiseInv_handle [OF inv, of K' h] by (cases "K' = key r") auto
  show "promises (launch e r t k s) ! h \<noteq> Some False"
    if "h < length (promises (launch e r t k s))" for h
    using that promiseInv_true [OF inv, of h] by (auto simp: nth_append less_Suc_eq)
qed

lemma promiseInv_initializeRepl:
  assumes "promiseInv s"
  shows "promiseInv (initializeRepl e r k s)"
proof (cases "replActive s (key r)")
  case None
  then show ?thesis using assms by (simp add: initializeRepl_def promiseInv_launch)
next
  case (Some h)
  have "promiseInv (suspend [AwaitExisting r (getTerminalService e r) h k] s)"
    using assms unfolding promiseInv_def by simp
  with Some show ?thesis by (simp add: initializeRepl_def)
qed

lemma promiseInv_execute: "promiseInv s \<Longrightarrow> promiseInv (execute e code r s)"
  by (simp add: execute_def promiseInv_initializeRepl)

lemma promiseInv_finish: "promiseInv s \<Longrightarrow> promiseInv (finish k s)"
  by (erule promiseInv_cong) simp_all

lemma promiseInv_executeFile: "promiseInv s \<Longrightarrow> promiseInv (executeFile e f s)"
  by (erule promiseInv_cong) simp_all

lemma close_fold_other:
  "(t, K) \<notin> set hs \<Longrightarrow>
     fold (\<lambda>(t', k) m. if t' = t then m(k := None) else m) hs m K = m K"
  by (induction hs arbitrary: m) (auto split: prod.splits)

lemma close_fold_shrinks:
  "fold (\<lambda>(t', k) m. if t' = t then m(k := None) else m) hs m K = Some h \<Longrightarrow> m K = Some h"
proof (induction hs arbitrary: m)
  case Nil
  then show ?case by simp
next
  case (Cons a hs)
  obtain t' k where a: "a = (t', k)" by (cases a)
  show ?case
  proof (cases "t' = t")
    case True
    with Cons.prems a have "fold (\<lambda>(t', k) m. if t' = t then m(k := None) else m) hs
        (m(k := None)) K = Some h" by simp
    from Cons.IH [OF this] show ?thesis by (simp split: if_splits)
  next
    case False
    with Cons.prems a have "fold (\<lambda>(t', k) m. if t' = t then m(k := None) else m) hs m K = Some h"
      by simp
    from Cons.IH [OF this] show ?thesis .
  qed
qed

lemma closeTerminal_fields [simp]:
  "promises (closeTerminal t s) = promises s"
  "pending (closeTerminal t s) = pending s"
  "terminalLog (closeTerminal t s) = terminalLog s"
  "closeHandlers (closeTerminal t s) = closeHandlers s"
  by (simp_all add: closeTerminal_def)

lemma closeTerminal_shrinks:
  assumes "replActive (closeTerminal t s) K = Some h"
  shows "replActive s K = Some h"
proof (rule close_fold_shrinks [where m = "replActive s" and K = K and t = t
      and hs = "closeHandlers s"])
  show "fold (\<lambda>(t', k) m. if t' = t then m(k := None) else m) (closeHandlers s)
      (replActive s) K = Some h"
    using assms by (simp add: closeTerminal_def)
qed

lemma closeTerminal_other:
  "(t, K) \<notin> set (closeHandlers s) \<Longrightarrow> replActive (closeTerminal t s) K = replActive s K"
  by (simp add: closeTerminal_def close_fold_other)

lemma promiseInv_closeTerminal:
  assumes inv: "promiseInv s"
  shows "promiseInv (closeTerminal t s)"
proof (rule promiseInvI)
  show "h < length (promises (closeTerminal t s)) \<and> promises (closeTerminal t s) ! h = None"
    if "Launcher r h st ip \<in> set (pending (closeTerminal t s))" for r h st ip
    using promiseInv_launcher [OF inv, of r h st ip] that by simp
  show "distinct (launcherHandles (pending (closeTerminal t s)))"
    using promiseInv_distinct [OF inv] by simp
  show "h < length (promises (closeTerminal t s))
      \<and> h \<notin> set (launcherHandles (pending (closeTerminal t s)))"
    if "Timer h \<in> set (pending (closeTerminal t s))" for h
    using promiseInv_timer [OF inv, of h] that by simp
  show "h < length (promises (closeTerminal t s))"
    if "replActive (closeTerminal t s) K' = Some h" for K' h
    using promiseInv_handle [OF inv closeTerminal_shrinks [OF that]] by simp
  show "promises (closeTerminal t s) ! h \<noteq> Some False"
    if "h < length (promises (closeTerminal t s))" for h
    using promiseInv_true [OF inv, of h] that by simp
qed

lemma promiseInv_drop:
  assumes inv: "promiseInv s" and split: "pending s = ys @ t # zs"
    and t: "launcherHandles [t] = []"
  shows "promiseInv (s\<lparr>pending := ys @ zs\<rparr>)"
proof -
  have lt: "launcherHandles (t # zs) = launcherHandles zs"
    using t by (cases t) simp_all
  show ?thesis
    using inv unfolding promiseInv_def split by (simp add: lt)
qed

text \<open>Under the invariant a call that waits for a registered promise never launches again.\<close>

lemma resume_AwaitExisting:
  assumes inv: "promiseInv s" 
    and res: "resume e (AwaitExisting r ts h k) (s\<lparr>pending := ps\<rparr>) = Some s'"
  shows "s' = suspend [AwaitShow k] (emit (Show r) (s\<lparr>pending := ps\<rparr>))"
proof -
  from res obtain v where v: "promiseState s h = Some v"
    by (auto simp: promiseState_def split: option.splits if_splits)
  then have "v" using promiseInv_true [OF inv, of h]
    by (cases v) (auto simp: promiseState_def split: if_splits)
  with res v show ?thesis
    by (auto simp: promiseState_def split: option.splits if_splits)
qed

lemma promiseInv_resume:
  assumes inv: "promiseInv s" and split: "pending s = ys @ t # zs"
    and res: "resume e t (s\<lparr>pending := ys @ zs\<rparr>) = Some s'"
  shows "promiseInv s'"
proof (cases t)
  case (AwaitExisting r ts h k)
  have dropped: "promiseInv (s\<lparr>pending := ys @ zs\<rparr>)"
    using promiseInv_drop [OF inv split] AwaitExisting by simp
  from resume_AwaitExisting [OF inv] res AwaitExisting
  have "s' = suspend [AwaitShow k] (emit (Show r) (s\<lparr>pending := ys @ zs\<rparr>))" by simp
  then show ?thesis using dropped unfolding promiseInv_def by simp
next
  case (AwaitShow k)
  have "promiseInv (s\<lparr>pending := ys @ zs\<rparr>)"
    using promiseInv_drop [OF inv split] AwaitShow by simp
  with res AwaitShow show ?thesis by (auto simp: promiseInv_finish)
next
  case (AwaitLaunched h k)
  have "promiseInv (s\<lparr>pending := ys @ zs\<rparr>)"
    using promiseInv_drop [OF inv split] AwaitLaunched by simp
  with res AwaitLaunched show ?thesis by (auto simp: promiseInv_finish split: option.splits)
next
  case (Launcher r h st ip)
  let ?c = "SendCommand r (command (execInfo (isWindows e) st ip []))
    (args (execInfo (isWindows e) st ip []))"
  from res Launcher have s': "s' = suspend [Timer h] (emit ?c (s\<lparr>pending := ys @ zs\<rparr>))"
    by (simp add: Let_def)
  have mem: "Launcher r h st ip \<in> set (pending s)" using split Launcher by simp
  note me = promiseInv_launcher [OF inv mem]
  have dist: "distinct (launcherHandles ys @ h # launcherHandles zs)"
    using promiseInv_distinct [OF inv] split Launcher by simp
  show ?thesis
  proof (rule promiseInvI)
    show "h' < length (promises s') \<and> promises s' ! h' = None"
      if "Launcher r' h' st' ip' \<in> set (pending s')" for r' h' st' ip'
    proof -
      from that have "Launcher r' h' st' ip' \<in> set (pending s)" using s' split by auto
      from promiseInv_launcher [OF inv this] show ?thesis using s' by simp
    qed
    show "distinct (launcherHandles (pending s'))" using dist s' by simp
    show "h' < length (promises s') \<and> h' \<notin> set (launcherHandles (pending s'))"
      if "Timer h' \<in> set (pending s')" for h'
    proof -
      from that consider "Timer h' \<in> set (pending s)" | "h' = h" using s' split by auto
      then show ?thesis
      proof cases
        case 1
        from promiseInv_timer [OF inv 1] show ?thesis using s' split Launcher by simp
      next
        case 2
        then show ?thesis using me dist s' by simp
      qed
    qed
    show "h' < length (promises s')" if "replActive s' K' = Some h'" for K' h'
      using that promiseInv_handle [OF inv, of K' h'] s' by simp
    show "promises s' ! h' \<noteq> Some False" if "h' < length (promises s')" for h'
      using that promiseInv_true [OF inv, of h'] s' by simp
  qed
next
  case (Timer h)
  from res Timer have s': "s' = s\<lparr>pending := ys @ zs, promises := (promises s)[h := Some True]\<rparr>"
    by simp
  have mem: "Timer h \<in> set (pending s)" using split Timer by simp
  note me = promiseInv_timer [OF inv mem]
  have lh: "launcherHandles (pending s') = launcherHandles (pending s)"
    using s' split Timer by simp
  show ?thesis
  proof (rule promiseInvI)
    show "h' < length (promises s') \<and> promises s' ! h' = None"
      if "Launcher r' h' st' ip' \<in> set (pending s')" for r' h' st' ip'
    proof -
      from that have m: "Launcher r' h' st' ip' \<in> set (pending s)" using s' split by auto
      then have "h' \<noteq> h" using me by (auto simp: launcherHandles_set)
      with promiseInv_launcher [OF inv m] show ?thesis using s' by simp
    qed
    show "distinct (launcherHandles (pending s'))" using promiseInv_distinct [OF inv] lh by simp
    show "h' < length (promises s') \<and> h' \<notin> set (launcherHandles (pending s'))"
      if "Timer h' \<in> set (pending s')" for h'
    proof -
      from that have "Timer h' \<in> set (pending s)" using s' split by auto
      from promiseInv_timer [OF inv this] show ?thesis unfolding lh using s' by simp
    qed
    show "h' < length (promises s')" if "replActive s' K' = Some h'" for K' h'
      using that promiseInv_handle [OF inv, of K' h'] s' by simp
    show "promises s' ! h' \<noteq> Some False" if "h' < length (promises s')" for h'
      using that promiseInv_true [OF inv, of h'] s' by (cases "h' = h") simp_all
  qed
qed

lemma pending_split: "i < length ts \<Longrightarrow> ts = take i ts @ ts ! i # drop (Suc i) ts"
  by (simp add: id_take_nth_drop)

lemma promiseInv_step:
  assumes "promiseInv s"
  shows "promiseInv (step e x s)"
proof (cases x)
  case (Resume i)
  show ?thesis
  proof (cases "i < length (pending s)")
    case True
    note sp = pending_split [OF True]
    show ?thesis
    proof (cases "resume e (pending s ! i)
        (s\<lparr>pending := take i (pending s) @ drop (Suc i) (pending s)\<rparr>)")
      case None
      with Resume True assms show ?thesis by simp
    next
      case (Some s')
      from promiseInv_resume [OF assms(1) sp Some] Resume True Some show ?thesis by simp
    qed
  next
    case False
    with Resume assms show ?thesis by simp
  qed
qed (use assms in \<open>simp_all add: promiseInv_execute promiseInv_initializeRepl promiseInv_executeFile
      promiseInv_closeTerminal\<close>)

lemma promiseInv_run: "promiseInv s \<Longrightarrow> promiseInv (run sched s)"
  unfolding run_def
  by (induction sched arbitrary: s) (auto simp: promiseInv_step)


lemma commandsFor_emit [simp]:
  "commandsFor K (emit ev s) = commandsFor K s + (if isCommandFor K ev then 1 else 0)"
  by (simp add: commandsFor_def)

lemma commandsFor_log:
  "terminalLog s' = terminalLog s \<Longrightarrow> commandsFor K s' = commandsFor K s"
  by (simp add: commandsFor_def)

lemma commandsFor_finish [simp]: "commandsFor K (finish k s) = commandsFor K s"
  by (cases k) (simp_all add: commandsFor_def)

lemma commandsFor_setCwd [simp]:
  "commandsFor K (setCwdForFileExecution e f s) = commandsFor K s"
  by (simp add: setCwdForFileExecution_def Let_def commandsFor_def emit_def)

lemma commandsFor_executeFile:
  "commandsFor K (executeFile e f s) = commandsFor K s + fileRun K (CallExecuteFile f)"
  by (simp add: executeFile_def Let_def)

lemma launchersFor_pending:
  "pending s' = pending s \<Longrightarrow> launchersFor K s' = launchersFor K s"
  by (simp add: launchersFor_def)

lemma launchersFor_finish [simp]: "launchersFor K (finish k s) = launchersFor K s"
  by (simp add: launchersFor_def)

lemma fileRuns_append [simp]: "fileRuns K (xs @ ys) = fileRuns K xs + fileRuns K ys"
  by (induction xs) auto

lemma launchInv_initializeRepl:
  assumes "launchInv K h c s"
  shows "launchInv K h c (initializeRepl e r k s)"
proof (cases "replActive s (key r)")
  case None
  with assms have "key r \<noteq> K" by (auto simp: launchInv_def)
  with None assms show ?thesis
    by (simp add: initializeRepl_def launchInv_def commandsFor_def launchersFor_def)
next
  case (Some h')
  with assms show ?thesis
    by (simp add: initializeRepl_def launchInv_def commandsFor_def launchersFor_def)
qed

lemma launchInv_resume:
  assumes inv: "promiseInv s" and li: "launchInv K h c s" and split: "pending s = ys @ t # zs"
    and res: "resume e t (s\<lparr>pending := ys @ zs\<rparr>) = Some s'"
  shows "launchInv K h c s'"
proof (cases t)
  case (AwaitExisting r ts h' k)
  from resume_AwaitExisting [OF inv] res AwaitExisting
  have "s' = suspend [AwaitShow k] (emit (Show r) (s\<lparr>pending := ys @ zs\<rparr>))" by simp
  with li split AwaitExisting show ?thesis
    by (simp add: launchInv_def commandsFor_def launchersFor_def)
next
  case (AwaitShow k)
  with res li split show ?thesis
    by (cases k) (auto simp: launchInv_def commandsFor_def launchersFor_def)
next
  case (AwaitLaunched h' k)
  with res li split show ?thesis
    by (cases k) (auto simp: launchInv_def commandsFor_def launchersFor_def split: option.splits)
next
  case (Launcher r h' st ip)
  with res li split show ?thesis
    by (auto simp: launchInv_def commandsFor_def launchersFor_def Let_def)
next
  case (Timer h')
  with res li split show ?thesis
    by (auto simp: launchInv_def commandsFor_def launchersFor_def)
qed

lemma launchInv_step:
  assumes inv: "promiseInv s" and li: "launchInv K h c s" and keep: "keeps K x s"
  shows "launchInv K h (c + fileRun K x) (step e x s)"
proof (cases x)
  case (CallExecuteFile f)
  with li show ?thesis
    using commandsFor_executeFile [of K e f s]
    by (simp add: launchInv_def launchersFor_def)
next
  case (CallExecute code r)
  with li show ?thesis by (simp add: execute_def launchInv_initializeRepl)
next
  case (CallInitializeRepl r)
  with li show ?thesis by (simp add: launchInv_initializeRepl)
next
  case (Resume i)
  show ?thesis
  proof (cases "i < length (pending s)")
    case True
    note sp = pending_split [OF True]
    show ?thesis
    proof (cases "resume e (pending s ! i)
        (s\<lparr>pending := take i (pending s) @ drop (Suc i) (pending s)\<rparr>)")
      case None
      with Resume True li show ?thesis by simp
    next
      case (Some s')
      from launchInv_resume [OF inv li sp Some] Resume True Some show ?thesis by simp
    qed
  next
    case False
    with Resume li show ?thesis by simp
  qed
next
  case (CloseTerminal t)
  with li keep show ?thesis
    by (simp add: launchInv_def closeTerminal_other commandsFor_def launchersFor_def)
qed

lemma launchInv_run:
  "promiseInv s \<Longrightarrow> launchInv K h c s \<Longrightarrow> quiet K sched s \<Longrightarrow>
     launchInv K h (c + fileRuns K sched) (run sched s)"
proof (induction sched arbitrary: s c)
  case Nil
  then show ?case by (simp add: run_def)
next
  case (Cons a sched)
  obtain e x where a: "a = (e, x)" by (cases a)
  from Cons.prems a have k: "keeps K x s" and q: "quiet K sched (step e x s)" by simp_all
  have "launchInv K h (c + fileRun K x + fileRuns K sched) (run sched (step e x s))"
    by (rule Cons.IH [OF promiseInv_step [OF Cons.prems(1)]
          launchInv_step [OF Cons.prems(1,2) k] q])
  then show ?case by (simp add: a run_def add.assoc)
qed

text \<open>No launcher joins those of a registered key.\<close>

lemma soleLauncher_initializeRepl:
  assumes "replActive s K = Some h" and "soleLauncher K h s"
  shows "soleLauncher K h (initializeRepl e r k s)"
proof (cases "replActive s (key r)")
  case None
  with assms(1) have "key r \<noteq> K" by auto
  with None assms(2) show ?thesis
    by (auto simp: initializeRepl_def soleLauncher_def)
next
  case (Some h')
  with assms(2) show ?thesis by (auto simp: initializeRepl_def soleLauncher_def)
qed

lemma soleLauncher_resume:
  assumes inv: "promiseInv s" and sl: "soleLauncher K h s" and split: "pending s = ys @ t # zs"
    and res: "resume e t (s\<lparr>pending := ys @ zs\<rparr>) = Some s'"
  shows "soleLauncher K h s'"
proof (cases t)
  case (AwaitExisting r ts h' k)
  from resume_AwaitExisting [OF inv] res AwaitExisting
  have "s' = suspend [AwaitShow k] (emit (Show r) (s\<lparr>pending := ys @ zs\<rparr>))" by simp
  with sl split show ?thesis by (auto simp: soleLauncher_def)
next
  case (AwaitShow k)
  with res sl split show ?thesis by (auto simp: soleLauncher_def)
next
  case (AwaitLaunched h' k)
  with res sl split show ?thesis by (auto simp: soleLauncher_def split: option.splits)
next
  case (Launcher r h' st ip)
  with res sl split show ?thesis by (auto simp: soleLauncher_def Let_def)
next
  case (Timer h')
  with res sl split show ?thesis by (auto simp: soleLauncher_def)
qed

lemma soleLauncher_step:
  assumes inv: "promiseInv s" and reg: "replActive s K = Some h" and sl: "soleLauncher K h s"
  shows "soleLauncher K h (step e x s)"
proof (cases x)
  case (Resume i)
  show ?thesis
  proof (cases "i < length (pending s)")
    case True
    note sp = pending_split [OF True]
    show ?thesis
    proof (cases "resume e (pending s ! i)
        (s\<lparr>pending := take i (pending s) @ drop (Suc i) (pending s)\<rparr>)")
      case None
      with Resume True sl show ?thesis by simp
    next
      case (Some s')
      from soleLauncher_resume [OF inv sl sp Some] Resume True Some show ?thesis by simp
    qed
  next
    case False
    with Resume sl show ?thesis by simp
  qed
qed (use reg sl in \<open>auto simp: execute_def soleLauncher_initializeRepl\<close>,
     use sl in \<open>simp_all add: soleLauncher_def\<close>)

lemma soleLauncher_run:
  "promiseInv s \<Longrightarrow> launchInv K h c s \<Longrightarrow> soleLauncher K h s \<Longrightarrow> quiet K sched s \<Longrightarrow>
     soleLauncher K h (run sched s)"
proof (induction sched arbitrary: s c)
  case Nil
  then show ?case by (simp add: run_def)
next
  case (Cons a sched)
  obtain e x where a: "a = (e, x)" by (cases a)
  from Cons.prems a have k: "keeps K x s" and q: "quiet K sched (step e x s)" by simp_all
  from Cons.prems(2) have reg: "replActive s K = Some h" by (simp add: launchInv_def)
  have "soleLauncher K h (run sched (step e x s))"
    by (rule Cons.IH [OF promiseInv_step [OF Cons.prems(1)]
          launchInv_step [OF Cons.prems(1,2) k]
          soleLauncher_step [OF Cons.prems(1) reg Cons.prems(3)] q])
  then show ?case by (simp add: a run_def)
qed

text \<open>Once the promise of the sole launcher is resolved, no launcher of the key is left.\<close>

lemma soleLauncher_resolved:
  assumes inv: "promiseInv s" and sl: "soleLauncher K h s" and res: "promises s ! h = Some True"
  shows "launchersFor K s = 0"
proof -
  have "filter (isLauncherFor K) (pending s) = []"
  proof (rule ccontr)
    assume "filter (isLauncherFor K) (pending s) \<noteq> []"
    then obtain t where t: "t \<in> set (pending s)" "isLauncherFor K t"
      by (auto simp: filter_empty_conv)
    from t(2) obtain r h' st ip where l: "t = Launcher r h' st ip" "key r = K"
      by (cases t) auto
    with t(1) sl have "h' = h" by (auto simp: soleLauncher_def)
    with promiseInv_launcher [OF inv, of r h' st ip] t(1) l res show False by simp
  qed
  then show ?thesis by (simp add: launchersFor_def)
qed


text \<open>What resuming a launcher does, whatever the state.\<close>

lemma resume_launcher:
  assumes "i < length (pending s)" and "pending s ! i = Launcher r h st ip"
  shows "step e (Resume i) s =
    s\<lparr> pending := take i (pending s) @ drop (Suc i) (pending s) @ [Timer h],
       terminalLog := terminalLog s @
         [SendCommand r
            (if isWindows e
             then map (\<lambda>c. if c = CHR 0x5C then CHR ''/'' else c)
                    (case ip of Some p \<Rightarrow> p | None \<Rightarrow> pythonPath st)
             else (case ip of Some p \<Rightarrow> p | None \<Rightarrow> pythonPath st))
            (launchArgs st)] \<rparr>"
  using assms
  by (simp add: Let_def suspend_def emit_def execInfo_def buildPythonExecInfo_def
      replaceBackslashes_def backslash_def)

text \<open>A call that waits for an unsettled promise cannot be resumed.\<close>

lemma resume_waiting:
  assumes "h < length (promises s)" and "promises s ! h = None"
  shows "step e (Resume (length (pending s)))
           (s\<lparr> pending := pending s @ [AwaitExisting r t h k] \<rparr>) =
         s\<lparr> pending := pending s @ [AwaitExisting r t h k] \<rparr>"
  using assms by (simp add: promiseState_def)

text \<open>Two calls in immediate succession, then the launcher, the timer and the two calls.\<close>

lemma immediate_succession:
  assumes "replActive s0 (key resource) = None"
  shows "run [(ea, Resume (length (pending s0))), (eb, Resume (length (pending s0) + 2)),
              (ec, Resume (length (pending s0))), (ed, Resume (length (pending s0))),
              (ee, Resume (length (pending s0)))]
           (step e2 (CallInitializeRepl resource) (step e1 (CallInitializeRepl resource) s0)) =
         s0\<lparr> promises := promises s0 @ [Some True],
             replActive := (replActive s0)(key resource \<mapsto> length (promises s0)),
             closeHandlers := closeHandlers s0 @ [(getTerminalService e1 resource, key resource)],
             terminalLog := terminalLog s0 @
               [SendCommand resource
                  (if isWindows ea
                   then map (\<lambda>c. if c = CHR 0x5C then CHR ''/'' else c)
                          (case getActiveInterpreter e1 resource of
                             Some p \<Rightarrow> p | None \<Rightarrow> pythonPath (getSettings e1 resource))
                   else (case getActiveInterpreter e1 resource of
                           Some p \<Rightarrow> p | None \<Rightarrow> pythonPath (getSettings e1 resource)))
                  (launchArgs (getSettings e1 resource)),
                Show resource] \<rparr>"
  using assms
  by (simp add: run_def initializeRepl_def launch_def suspend_def emit_def Let_def nth_append
      promiseState_def execInfo_def buildPythonExecInfo_def replaceBackslashes_def backslash_def)

section \<open>The claims\<close>

lemmas sample_defs = sampleEnv_def sampleWinEnv_def sampleSettings_def sampleDirname_def
  sampleInterpreter_def backslash_def initialState_def

lemmas string_defs = isAsciiLetter_def isLineTerminator_def isWhiteSpace_def trim_def
  replaceBackslashes_def

lemmas file_defs = executeFile_def setCwdForFileExecution_def emit_def getExecuteFileArgs_def
  getExecutableInfo_def execInfo_def buildPythonExecInfo_def

lemmas repl_defs = run_def execute_def initializeRepl_def launch_def suspend_def emit_def
  promiseState_def closeTerminal_def key_def execInfo_def buildPythonExecInfo_def
  commandsFor_def launchersFor_def

text \<open>
  C1. The claim: for a non-empty code string, \<open>executeCode\<close> first ensures the session of
  the resource key it was given and then sends the code to the terminal of that same key.
  The code does not: line 46 calls \<open>initializeRepl\<close> without the resource. On a fresh
  controller, executing \<open>x\<close> for the file \<open>a.py\<close> registers the session under the empty key
  and leaves the key \<open>a.py\<close> unregistered; the start command goes to the terminal
  requested without a resource, the code to the terminal requested for \<open>a.py\<close>.
\<close>

theorem execute_session_of_other_key:
  "(let s1 = step sampleEnv (CallExecute ''x'' (Some ''a.py'')) initialState;
        s2 = run [(sampleEnv, Resume 0), (sampleEnv, Resume 1), (sampleEnv, Resume 0)] s1
    in replActive s1 (key (Some ''a.py'')) = None
       \<and> replActive s1 (key None) = Some 0
       \<and> pending s1 = [Launcher None 0 sampleSettings None,
                        AwaitLaunched 0 (SendCode (Some ''a.py'') ''x'')]
       \<and> pending s2 = []
       \<and> terminalLog s2 = [SendCommand None ''python'' [''-i''], SendText (Some ''a.py'') ''x''])"
  by (simp add: sample_defs repl_defs string_defs Let_def)

text \<open>
  C2. The claim fails when the terminal of the key is closed while a launch is in flight:
  the close listener deletes the entry and the launcher goes on. Here the execution of
  \<open>a.py\<close> opens its terminal, a first call of \<open>initializeRepl\<close> for \<open>a.py\<close> launches, and
  the terminal is closed. A second call, made while the promise of the first is unsettled,
  finds no entry, launches again and waits for a promise of its own; both launchers then
  send their start command, after the close.
\<close>

theorem initializeRepl_stale_launch_counterexample:
  "(let s1 = run [(sampleEnv, CallExecuteFile ''a.py''),
                  (sampleEnv, CallInitializeRepl (Some ''a.py''))] initialState;
        s2 = step sampleEnv (CloseTerminal (getTerminalService sampleEnv (Some ''a.py''))) s1;
        s3 = step sampleEnv (CallInitializeRepl (Some ''a.py'')) s2;
        s4 = run [(sampleEnv, Resume 0), (sampleEnv, Resume 1)] s3
    in replActive s1 (key (Some ''a.py'')) = Some 0
       \<and> promises s1 = [None]
       \<and> terminalLog s2 = [SendText (Some ''a.py'') ''cd a.py'',
                           SendCommand (Some ''a.py'') ''python'' [''-i'', ''a.py'']]
       \<and> replActive s2 (key (Some ''a.py'')) = None
       \<and> promises s3 = [None, None]
       \<and> replActive s3 (key (Some ''a.py'')) = Some 1
       \<and> pending s3 = [Launcher (Some ''a.py'') 0 sampleSettings None, AwaitLaunched 0 Return,
                        Launcher (Some ''a.py'') 1 sampleSettings None, AwaitLaunched 1 Return]
       \<and> promises s4 = [None, None]
       \<and> terminalLog s4 = terminalLog s2 @
             [SendCommand (Some ''a.py'') ''python'' [''-i''],
              SendCommand (Some ''a.py'') ''python'' [''-i'']])"
  by (simp add: sample_defs repl_defs file_defs Let_def)

text \<open>
  C2, amended. Let a controller have any history, and let the key of a resource be
  unregistered. A call of \<open>initializeRepl\<close> for the resource sends nothing and, before
  anything is resumed, registers a new unsettled promise under the key, with a launcher
  and the call itself waiting. Let any steps follow that close no terminal with a listener
  for the key: calls for any resource, resumptions in any order, file executions, other
  closes. Then the promise stays registered, and a second call for the resource, made before
  or after the warm-up is over, only joins the waiting computations, on that same promise;
  it cannot be resumed while the promise is unsettled. From the first call on, the commands
  sent for the key and the launchers of the key still waiting number those there were at
  the first call, one more, and one for each file execution of the key. If no launcher of
  the key was waiting at the first call, exactly one start command has been sent once
  the warm-up has resolved the promise. A waiting launcher can always be resumed, and then
  sends its start command and starts the timer. When the second call follows the first at
  once and the launcher, the timer and the two calls are resumed, exactly the start command
  and the showing of the terminal have been logged and nothing of the two calls is left
  waiting.
\<close>

theorem initializeRepl_single_launch:
  assumes "replActive (run sched0 initialState) (key resource) = None"
    and "quiet (key resource) sched1
           (step e1 (CallInitializeRepl resource) (run sched0 initialState))"
    and "quiet (key resource) sched2
           (step e2 (CallInitializeRepl resource)
             (run sched1 (step e1 (CallInitializeRepl resource) (run sched0 initialState))))"
  shows "(let K = key resource;
              s0 = run sched0 initialState;
              h = length (promises s0);
              s1 = step e1 (CallInitializeRepl resource) s0;
              s2 = run sched1 s1;
              s3 = step e2 (CallInitializeRepl resource) s2;
              s4 = run sched2 s3
          in s1 = s0\<lparr> promises := promises s0 @ [None],
                        replActive := (replActive s0)(K \<mapsto> h),
                        closeHandlers := closeHandlers s0 @ [(getTerminalService e1 resource, K)],
                        pending := pending s0 @
                          [Launcher resource h (getSettings e1 resource)
                             (getActiveInterpreter e1 resource),
                           AwaitLaunched h Return] \<rparr>
             \<and> replActive s2 K = Some h
             \<and> s3 = s2\<lparr> pending := pending s2 @
                          [AwaitExisting resource (getTerminalService e2 resource) h Return] \<rparr>
             \<and> (promises s2 ! h = None \<longrightarrow> step e (Resume (length (pending s2))) s3 = s3)
             \<and> commandsFor K s4 + launchersFor K s4 =
                 commandsFor K s0 + launchersFor K s0 + fileRuns K (sched1 @ sched2) + 1
             \<and> (launchersFor K s0 = 0 \<longrightarrow> promises s4 ! h = Some True \<longrightarrow>
                  commandsFor K s4 = commandsFor K s0 + fileRuns K (sched1 @ sched2) + 1)
             \<and> (i < length (pending s4) \<longrightarrow> pending s4 ! i = Launcher r h' st ip \<longrightarrow>
                  step e (Resume i) s4 =
                  s4\<lparr> pending := take i (pending s4) @ drop (Suc i) (pending s4) @ [Timer h'],
                      terminalLog := terminalLog s4 @
                        [SendCommand r
                           (if isWindows e
                            then map (\<lambda>c. if c = CHR 0x5C then CHR ''/'' else c)
                                   (case ip of Some p \<Rightarrow> p | None \<Rightarrow> pythonPath st)
                            else (case ip of Some p \<Rightarrow> p | None \<Rightarrow> pythonPath st))
                           (launchArgs st)] \<rparr>)
             \<and> run [(ea, Resume (length (pending s0))), (eb, Resume (length (pending s0) + 2)),
                     (ec, Resume (length (pending s0))), (ed, Resume (length (pending s0))),
                     (ee, Resume (length (pending s0)))]
                  (step e2 (CallInitializeRepl resource) s1) =
                 s0\<lparr> promises := promises s0 @ [Some True],
                     replActive := (replActive s0)(K \<mapsto> h),
                     closeHandlers := closeHandlers s0 @ [(getTerminalService e1 resource, K)],
                     terminalLog := terminalLog s0 @
                       [SendCommand resource
                          (if isWindows ea
                           then map (\<lambda>c. if c = CHR 0x5C then CHR ''/'' else c)
                                  (case getActiveInterpreter e1 resource of
                                     Some p \<Rightarrow> p
                                   | None \<Rightarrow> pythonPath (getSettings e1 resource))
                           else (case getActiveInterpreter e1 resource of
                                   Some p \<Rightarrow> p
                                 | None \<Rightarrow> pythonPath (getSettings e1 resource)))
                          (launchArgs (getSettings e1 resource)),
                        Show resource] \<rparr>)"
proof -
  define K where "K = key resource"
  define s0 where "s0 = run sched0 initialState"
  define h where "h = length (promises s0)"
  define s1 where "s1 = step e1 (CallInitializeRepl resource) s0"
  define s2 where "s2 = run sched1 s1"
  define s3 where "s3 = step e2 (CallInitializeRepl resource) s2"
  define s4 where "s4 = run sched2 s3"
  have q1: "quiet K sched1 s1" and q2: "quiet K sched2 s3"
    using assms(2,3) by (simp_all add: K_def s0_def s1_def s2_def s3_def)
  have absent: "replActive s0 (key resource) = None"
    using assms(1) by (simp add: s0_def)
  have p0: "promiseInv s0"
    unfolding s0_def using promiseInv_initial by (rule promiseInv_run)
  have p1: "promiseInv s1" unfolding s1_def using p0 by (rule promiseInv_step)
  have p2: "promiseInv s2" unfolding s2_def using p1 by (rule promiseInv_run)
  have p3: "promiseInv s3" unfolding s3_def using p2 by (rule promiseInv_step)
  have p4: "promiseInv s4" unfolding s4_def using p3 by (rule promiseInv_run)
  have c1: "s1 = s0\<lparr> promises := promises s0 @ [None],
        replActive := (replActive s0)(K \<mapsto> h),
        closeHandlers := closeHandlers s0 @ [(getTerminalService e1 resource, K)],
        pending := pending s0 @
          [Launcher resource h (getSettings e1 resource) (getActiveInterpreter e1 resource),
           AwaitLaunched h Return] \<rparr>"
    using absent by (simp add: s1_def initializeRepl_def launch_def Let_def K_def h_def)
  have l1: "launchInv K h (commandsFor K s0 + launchersFor K s0 + 1) s1"
    by (subst c1) (simp add: launchInv_def commandsFor_def launchersFor_def K_def)
  have l2: "launchInv K h (commandsFor K s0 + launchersFor K s0 + 1 + fileRuns K sched1) s2"
    unfolding s2_def using p1 l1 q1 by (rule launchInv_run)
  then have c2: "replActive s2 K = Some h" by (simp add: launchInv_def)
  have c3: "s3 = s2\<lparr> pending := pending s2 @
        [AwaitExisting resource (getTerminalService e2 resource) h Return] \<rparr>"
    using c2 by (simp add: s3_def initializeRepl_def suspend_def K_def)
  have hlt: "h < length (promises s2)" using promiseInv_handle [OF p2 c2] .
  have c4: "step e (Resume (length (pending s2))) s3 = s3" if "promises s2 ! h = None"
    unfolding c3 using hlt that by (rule resume_waiting)
  have l3: "launchInv K h (commandsFor K s0 + launchersFor K s0 + 1 + fileRuns K sched1) s3"
    using launchInv_step [OF p2 l2, of "CallInitializeRepl resource" e2]
    by (simp add: s3_def)
  have l4: "launchInv K h
      (commandsFor K s0 + launchersFor K s0 + 1 + fileRuns K sched1 + fileRuns K sched2) s4"
    unfolding s4_def using p3 l3 q2 by (rule launchInv_run)
  then have c5: "commandsFor K s4 + launchersFor K s4 =
      commandsFor K s0 + launchersFor K s0 + fileRuns K (sched1 @ sched2) + 1"
    by (simp add: launchInv_def)
  have c6: "commandsFor K s4 = commandsFor K s0 + fileRuns K (sched1 @ sched2) + 1"
    if none: "launchersFor K s0 = 0" and resolved: "promises s4 ! h = Some True"
  proof -
    have "soleLauncher K h s1"
      using none by (subst c1) (auto simp: soleLauncher_def launchersFor_def filter_empty_conv)
    then have "soleLauncher K h s2"
      unfolding s2_def using p1 l1 q1 by (intro soleLauncher_run)
    then have "soleLauncher K h s3"
      unfolding s3_def using p2 c2 by (intro soleLauncher_step)
    then have "soleLauncher K h s4"
      unfolding s4_def using p3 l3 q2 by (intro soleLauncher_run)
    from soleLauncher_resolved [OF p4 this resolved] c5 none show ?thesis by simp
  qed
  have c7: "step e (Resume i) s4 =
      s4\<lparr> pending := take i (pending s4) @ drop (Suc i) (pending s4) @ [Timer h'],
          terminalLog := terminalLog s4 @
            [SendCommand r
               (if isWindows e
                then map (\<lambda>c. if c = CHR 0x5C then CHR ''/'' else c)
                       (case ip of Some p \<Rightarrow> p | None \<Rightarrow> pythonPath st)
                else (case ip of Some p \<Rightarrow> p | None \<Rightarrow> pythonPath st))
               (launchArgs st)] \<rparr>"
    if "i < length (pending s4)" and "pending s4 ! i = Launcher r h' st ip"
    using that by (rule resume_launcher)
  note c8 = immediate_succession [OF absent, of ea eb ec ed ee e2 e1,
      folded s1_def h_def K_def]
  from c1 c2 c3 c4 c5 c6 c7 c8
  show ?thesis
    unfolding Let_def K_def [symmetric] s0_def [symmetric] h_def [symmetric] s1_def [symmetric]
      s2_def [symmetric] s3_def [symmetric] s4_def [symmetric]
    by blast
qed


text \<open>
  Another session is being launched and its terminal is closed meanwhile, and the file of
  the key is executed; the second call arrives when the start command is out and the timer
  still runs.
\<close>

theorem initializeRepl_single_launch_witness:
  "replActive (run sampleBefore initialState) (key (Some ''a.py'')) = None
   \<and> quiet (key (Some ''a.py'')) sampleBetween
        (step sampleEnv (CallInitializeRepl (Some ''a.py'')) (run sampleBefore initialState))
   \<and> quiet (key (Some ''a.py'')) sampleAfter
        (step sampleEnv (CallInitializeRepl (Some ''a.py''))
          (run sampleBetween
            (step sampleEnv (CallInitializeRepl (Some ''a.py'')) (run sampleBefore initialState))))
   \<and> promises
        (run sampleBetween
          (step sampleEnv (CallInitializeRepl (Some ''a.py'')) (run sampleBefore initialState)))
        = [None, None]
   \<and> fileRuns (key (Some ''a.py'')) (sampleBetween @ sampleAfter) = 1
   \<and> commandsFor (key (Some ''a.py''))
        (run sampleAfter
          (step sampleEnv (CallInitializeRepl (Some ''a.py''))
            (run sampleBetween
              (step sampleEnv (CallInitializeRepl (Some ''a.py''))
                (run sampleBefore initialState))))) = 2
   \<and> terminalLog
        (run sampleAfter
          (step sampleEnv (CallInitializeRepl (Some ''a.py''))
            (run sampleBetween
              (step sampleEnv (CallInitializeRepl (Some ''a.py''))
                (run sampleBefore initialState))))) =
       [SendCommand (Some ''a.py'') ''python'' [''-i''],
        SendText (Some ''a.py'') ''cd a.py'',
        SendCommand (Some ''a.py'') ''python'' [''-i'', ''a.py''],
        Show (Some ''a.py'')]"
proof -
  note defs = sample_defs sampleBefore_def sampleBetween_def sampleAfter_def repl_defs file_defs
  have a: "replActive (run sampleBefore initialState) (key (Some ''a.py'')) = None"
    by (simp add: defs)
  have b: "quiet (key (Some ''a.py'')) sampleBetween
        (step sampleEnv (CallInitializeRepl (Some ''a.py'')) (run sampleBefore initialState))"
    by (simp add: defs Let_def)
  have c: "quiet (key (Some ''a.py'')) sampleAfter
        (step sampleEnv (CallInitializeRepl (Some ''a.py''))
          (run sampleBetween
            (step sampleEnv (CallInitializeRepl (Some ''a.py'')) (run sampleBefore initialState))))"
    by (simp add: defs Let_def)
  have running: "promises
        (run sampleBetween
          (step sampleEnv (CallInitializeRepl (Some ''a.py'')) (run sampleBefore initialState)))
        = [None, None]"
    by (simp add: defs Let_def)
  have runs: "fileRuns (key (Some ''a.py'')) (sampleBetween @ sampleAfter) = 1"
    by (simp add: sampleBetween_def sampleAfter_def key_def)
  have stale: "launchersFor (key (Some ''a.py'')) (run sampleBefore initialState) = 0"
    and base: "commandsFor (key (Some ''a.py'')) (run sampleBefore initialState) = 0"
    by (simp_all add: defs)
  have warm: "promises
        (run sampleAfter
          (step sampleEnv (CallInitializeRepl (Some ''a.py''))
            (run sampleBetween
              (step sampleEnv (CallInitializeRepl (Some ''a.py''))
                (run sampleBefore initialState)))))
        ! length (promises (run sampleBefore initialState)) = Some True"
    by (simp add: defs Let_def)
  have log: "terminalLog
        (run sampleAfter
          (step sampleEnv (CallInitializeRepl (Some ''a.py''))
            (run sampleBetween
              (step sampleEnv (CallInitializeRepl (Some ''a.py''))
                (run sampleBefore initialState))))) =
       [SendCommand (Some ''a.py'') ''python'' [''-i''],
        SendText (Some ''a.py'') ''cd a.py'',
        SendCommand (Some ''a.py'') ''python'' [''-i'', ''a.py''],
        Show (Some ''a.py'')]"
    by (simp add: defs Let_def)
  from initializeRepl_single_launch [OF a b c, unfolded Let_def]
  have "launchersFor (key (Some ''a.py'')) (run sampleBefore initialState) = 0 \<longrightarrow>
      promises
        (run sampleAfter
          (step sampleEnv (CallInitializeRepl (Some ''a.py''))
            (run sampleBetween
              (step sampleEnv (CallInitializeRepl (Some ''a.py''))
                (run sampleBefore initialState)))))
        ! length (promises (run sampleBefore initialState)) = Some True \<longrightarrow>
      commandsFor (key (Some ''a.py''))
        (run sampleAfter
          (step sampleEnv (CallInitializeRepl (Some ''a.py''))
            (run sampleBetween
              (step sampleEnv (CallInitializeRepl (Some ''a.py''))
                (run sampleBefore initialState))))) =
      commandsFor (key (Some ''a.py'')) (run sampleBefore initialState)
        + fileRuns (key (Some ''a.py'')) (sampleBetween @ sampleAfter) + 1"
    by blast
  with stale warm base runs
  have "commandsFor (key (Some ''a.py''))
        (run sampleAfter
          (step sampleEnv (CallInitializeRepl (Some ''a.py''))
            (run sampleBetween
              (step sampleEnv (CallInitializeRepl (Some ''a.py''))
                (run sampleBefore initialState))))) = 2"
    by simp
  with a b c running runs log show ?thesis by blast
qed

text \<open>
  C3. On a Windows-like platform with \<open>executeInFileDir\<close> enabled, executing a file whose
  drive differs from the drive of the workspace root sends the drive change for the file's
  drive, then the \<open>cd\<close> and the run command, and sets \<open>hasRanOutsideCurrentDrive\<close>. The
  flag stays set through every later step of the controller, and every later execution of a
  file with a drive letter sends the drive change for that file's drive first, whatever the
  drive of the workspace root is by then.
\<close>

theorem drive_change_sticky:
  assumes "isWindows e1" and "executeInFileDir (getSettings e1 (Some file1))"
    and "rootPath e1 = Some root" and "hasDriveLetter (dirname e1 file1)"
    and "stripFromColon (dirname e1 file1) \<noteq> stripFromColon root"
    and "isWindows e2" and "executeInFileDir (getSettings e2 (Some file2))"
    and "hasDriveLetter (dirname e2 file2)"
  shows "(let s1 = step e1 (CallExecuteFile file1) s;
              s2 = run sched s1;
              s3 = step e2 (CallExecuteFile file2) s2;
              info1 = getExecuteFileArgs e1 (Some file1) [fileToCommandArgumentForPythonExt e1 file1];
              info2 = getExecuteFileArgs e2 (Some file2) [fileToCommandArgumentForPythonExt e2 file2]
          in terminalLog s1 = terminalLog s @
               [SendText (Some file1) (stripFromColon (dirname e1 file1) @ '':''),
                SendText (Some file1)
                  (''cd '' @ fileToCommandArgumentForPythonExt e1 (dirname e1 file1)),
                SendCommand (Some file1) (command info1) (args info1)]
             \<and> hasRanOutsideCurrentDrive s1
             \<and> hasRanOutsideCurrentDrive s2
             \<and> terminalLog s3 = terminalLog s2 @
               [SendText (Some file2) (stripFromColon (dirname e2 file2) @ '':''),
                SendText (Some file2)
                  (''cd '' @ fileToCommandArgumentForPythonExt e2 (dirname e2 file2)),
                SendCommand (Some file2) (command info2) (args info2)]
             \<and> hasRanOutsideCurrentDrive s3)"
proof -
  have ne1: "dirname e1 file1 \<noteq> []" and ne2: "dirname e2 file2 \<noteq> []"
    using assms(4,8) by auto
  have f1: "hasRanOutsideCurrentDrive (executeFile e1 file1 s)"
    using assms ne1 by (simp add: executeFile_def setCwdForFileExecution_def emit_def Let_def)
  then have f2: "hasRanOutsideCurrentDrive (run sched (executeFile e1 file1 s))"
    by (rule flag_run)
  have l1: "terminalLog (setCwdForFileExecution e1 file1 s) = terminalLog s @
      [SendText (Some file1) (stripFromColon (dirname e1 file1) @ '':''),
       SendText (Some file1) (''cd '' @ fileToCommandArgumentForPythonExt e1 (dirname e1 file1))]"
    using assms ne1 by (simp add: setCwdForFileExecution_def emit_def Let_def)
  have l3: "terminalLog (setCwdForFileExecution e2 file2 s') = terminalLog s' @
      [SendText (Some file2) (stripFromColon (dirname e2 file2) @ '':''),
       SendText (Some file2) (''cd '' @ fileToCommandArgumentForPythonExt e2 (dirname e2 file2))]"
    if "hasRanOutsideCurrentDrive s'" for s'
    using assms ne2 that by (simp add: setCwdForFileExecution_def emit_def Let_def)
  show ?thesis
    using f1 f2 l1 l3 [OF f2] flag_executeFile [OF f2, of e2 file2]
    by (simp add: executeFile_def emit_def Let_def)
qed

text \<open>
  Root on \<open>C:\<close>, a file on \<open>D:\<close>, an execution of code in between, then a file on \<open>C:\<close>: the
  second file execution still sends \<open>C:\<close>.
\<close>

theorem drive_change_sticky_witness:
  "isWindows (sampleWinEnv (Some sampleRoot))
   \<and> hasDriveLetter (dirname (sampleWinEnv (Some sampleRoot)) sampleFileD)
   \<and> stripFromColon (dirname (sampleWinEnv (Some sampleRoot)) sampleFileD) = ''D''
   \<and> stripFromColon sampleRoot = ''C''
   \<and> stripFromColon (dirname (sampleWinEnv (Some sampleRoot)) sampleFileC) = ''C''
   \<and> (let s2 = run [(sampleWinEnv (Some sampleRoot), CallExecute ''x'' None)]
                 (step (sampleWinEnv (Some sampleRoot)) (CallExecuteFile sampleFileD) initialState);
           s3 = step (sampleWinEnv (Some sampleRoot)) (CallExecuteFile sampleFileC) s2
       in terminalLog s2 =
            [SendText (Some sampleFileD) ''D:'',
             SendText (Some sampleFileD) (''cd D:'' @ [backslash] @ ''data''),
             SendCommand (Some sampleFileD) ''C:/py/python.exe'' [''-i'', sampleFileD]]
          \<and> terminalLog s3 = terminalLog s2 @
            [SendText (Some sampleFileC) ''C:'',
             SendText (Some sampleFileC) (''cd C:'' @ [backslash] @ ''proj''),
             SendCommand (Some sampleFileC) ''C:/py/python.exe'' [''-i'', sampleFileC]])"
  using drive_change_sticky [of "sampleWinEnv (Some sampleRoot)" sampleFileD sampleRoot
      "sampleWinEnv (Some sampleRoot)" sampleFileC initialState
      "[(sampleWinEnv (Some sampleRoot), CallExecute ''x'' None)]"]
  by (simp add: sample_defs sampleRoot_def sampleFileC_def sampleFileD_def string_defs file_defs repl_defs Let_def)

text \<open>
  C4. A code string that is empty or consists of white space only makes \<open>executeCode\<close>
  return with the controller unchanged: nothing is sent, no session is launched or
  touched, the registry is as before.
\<close>

theorem execute_blank_noop:
  "\<forall>c\<in>set code. isWhiteSpace c \<Longrightarrow> step e (CallExecute code resource) s = s"
  by (simp add: execute_def trim_empty_iff)

theorem execute_blank_noop_witness:
  "trim '''' = [] \<and> trim ''   '' = [] \<and> trim [CHR 0x0A] = []
   \<and> step sampleEnv (CallExecute '''' None) initialState = initialState
   \<and> step sampleEnv (CallExecute ''   '' (Some ''a.py'')) initialState = initialState
   \<and> step sampleEnv (CallExecute [CHR 0x0A] (Some ''a.py'')) initialState = initialState"
  using execute_blank_noop [of "''''" sampleEnv None initialState]
    execute_blank_noop [of "''   ''" sampleEnv "Some ''a.py''" initialState]
    execute_blank_noop [of "[CHR 0x0A]" sampleEnv "Some ''a.py''" initialState]
  by (simp add: string_defs)

text \<open>
  C5. The claim, that the command is the active interpreter's path, fails on a Windows-like
  platform for a path with a backslash: the command is the path with forward slashes.
\<close>

theorem resolveExecutable_command_counterexample:
  "getActiveInterpreter (sampleWinEnv None) None = Some sampleInterpreter
   \<and> pythonPath (getSettings (sampleWinEnv None) None) = ''python''
   \<and> command (getExecutableInfo (sampleWinEnv None) None []) = ''C:/py/python.exe''
   \<and> command (getExecutableInfo (sampleWinEnv None) None []) \<noteq> sampleInterpreter"
  by (simp add: sample_defs string_defs file_defs Let_def)

text \<open>
  C5, amended. With an active interpreter the command is its path, with every backslash
  replaced by a forward slash on a Windows-like platform, whatever the configured fallback
  path is; the fallback path, treated the same way, is the command only when there is no
  active interpreter. The arguments are the configured launch arguments followed by the
  caller's extra arguments.
\<close>

theorem resolveExecutable_precedence:
  "(getActiveInterpreter e resource = Some p \<longrightarrow>
      command (getExecutableInfo e resource extraArgs) =
        (if isWindows e then replaceBackslashes p else p))
   \<and> (getActiveInterpreter e resource = None \<longrightarrow>
      command (getExecutableInfo e resource extraArgs) =
        (if isWindows e then replaceBackslashes (pythonPath (getSettings e resource))
         else pythonPath (getSettings e resource)))
   \<and> args (getExecutableInfo e resource extraArgs) =
        launchArgs (getSettings e resource) @ extraArgs"
  by (simp add: getExecutableInfo_def execInfo_def buildPythonExecInfo_def Let_def)

theorem resolveExecutable_precedence_witness:
  "getActiveInterpreter (sampleWinEnv None) (Some sampleFileC) = Some sampleInterpreter
   \<and> command (getExecutableInfo (sampleWinEnv None) (Some sampleFileC) [''-u'']) = ''C:/py/python.exe''
   \<and> args (getExecutableInfo (sampleWinEnv None) (Some sampleFileC) [''-u'']) = [''-i'', ''-u'']
   \<and> getActiveInterpreter sampleEnv None = None
   \<and> command (getExecutableInfo sampleEnv None []) = ''python''"
  using resolveExecutable_precedence [of "sampleWinEnv None" "Some sampleFileC" sampleInterpreter
      "[''-u'']"]
    resolveExecutable_precedence [of sampleEnv None sampleInterpreter "[]"]
  by (simp add: sample_defs sampleFileC_def string_defs)

text \<open>
  C6. On a Windows-like platform with \<open>executeInFileDir\<close> enabled, a workspace root and a
  file directory with the same drive, and \<open>hasRanOutsideCurrentDrive\<close> not set: executing the
  file sends no drive change, only one \<open>cd\<close> with the quoted directory and then the run
  command; the flag stays unset.
\<close>

theorem executeFile_same_drive:
  assumes "isWindows e" and "executeInFileDir (getSettings e (Some file))"
    and "rootPath e = Some root" and "dirname e file \<noteq> []"
    and "stripFromColon (dirname e file) = stripFromColon root"
    and "\<not> hasRanOutsideCurrentDrive s"
  shows "(let info = getExecuteFileArgs e (Some file) [fileToCommandArgumentForPythonExt e file]
          in terminalLog (step e (CallExecuteFile file) s) =
               terminalLog s @
                 [SendText (Some file)
                    (''cd '' @ fileToCommandArgumentForPythonExt e (dirname e file)),
                  SendCommand (Some file) (command info) (args info)]
             \<and> \<not> hasRanOutsideCurrentDrive (step e (CallExecuteFile file) s))"
  using assms by (simp add: executeFile_def setCwdForFileExecution_def emit_def Let_def)

theorem executeFile_same_drive_witness:
  "stripFromColon (dirname (sampleWinEnv (Some sampleRoot)) sampleFileC) = ''C''
   \<and> stripFromColon sampleRoot = ''C''
   \<and> \<not> hasRanOutsideCurrentDrive initialState
   \<and> terminalLog (step (sampleWinEnv (Some sampleRoot)) (CallExecuteFile sampleFileC) initialState) =
       [SendText (Some sampleFileC) (''cd C:'' @ [backslash] @ ''proj''),
        SendCommand (Some sampleFileC) ''C:/py/python.exe'' [''-i'', sampleFileC]]"
  using executeFile_same_drive [of "sampleWinEnv (Some sampleRoot)" sampleFileC sampleRoot
      initialState]
  by (simp add: sample_defs sampleRoot_def sampleFileC_def string_defs file_defs Let_def)

text \<open>
  C7. The claim: closing the terminal of a registered key K deletes K's entry, so that the
  next \<open>executeCode\<close> for K sends a fresh start command. The entry is deleted, but
  \<open>executeCode\<close> consults the empty key (line 46). With sessions ready for the empty key
  and for \<open>a.py\<close>, closing the terminal of \<open>a.py\<close> deletes its entry; executing \<open>x\<close> for
  \<open>a.py\<close> then reuses the promise of the empty key, sends no start command at all, shows the
  other terminal and sends the code to the terminal of \<open>a.py\<close>, whose entry is still missing.
\<close>

theorem execute_after_close_no_restart:
  "(let s1 = run [(sampleEnv, CallInitializeRepl None), (sampleEnv, Resume 0),
                  (sampleEnv, Resume 1), (sampleEnv, Resume 0),
                  (sampleEnv, CallInitializeRepl (Some ''a.py'')), (sampleEnv, Resume 0),
                  (sampleEnv, Resume 1), (sampleEnv, Resume 0)] initialState;
        s2 = step sampleEnv (CloseTerminal (getTerminalService sampleEnv (Some ''a.py''))) s1;
        s3 = run [(sampleEnv, CallExecute ''x'' (Some ''a.py'')), (sampleEnv, Resume 0),
                  (sampleEnv, Resume 0)] s2
    in replActive s1 (key (Some ''a.py'')) = Some 1
       \<and> promiseState s1 1 = Some True
       \<and> terminalLog s1 = [SendCommand None ''python'' [''-i''],
                           SendCommand (Some ''a.py'') ''python'' [''-i'']]
       \<and> replActive s2 (key (Some ''a.py'')) = None
       \<and> replActive s2 (key None) = Some 0
       \<and> pending s3 = []
       \<and> terminalLog s3 = terminalLog s1 @ [Show None, SendText (Some ''a.py'') ''x'']
       \<and> replActive s3 (key (Some ''a.py'')) = None)"
  by (simp add: sample_defs repl_defs string_defs Let_def)

text \<open>
  C8. The command is the chosen interpreter path (the active interpreter's, else the
  configured one) with every backslash replaced by a forward slash on a Windows-like
  platform, and that path unchanged on any other platform.
\<close>

theorem resolveExecutable_separators:
  "command (getExecutableInfo e resource extraArgs) =
     (let interpreterPath =
            (case getActiveInterpreter e resource of
               Some p \<Rightarrow> p
             | None \<Rightarrow> pythonPath (getSettings e resource))
      in if isWindows e
         then map (\<lambda>c. if c = CHR 0x5C then CHR ''/'' else c) interpreterPath
         else interpreterPath)"
  by (simp add: getExecutableInfo_def execInfo_def buildPythonExecInfo_def
      replaceBackslashes_def backslash_def Let_def)

theorem resolveExecutable_separators_witness:
  "command (getExecutableInfo (sampleWinEnv None) None []) = ''C:/py/python.exe''
   \<and> command (getExecutableInfo ((sampleWinEnv None)\<lparr> isWindows := False \<rparr>) None []) =
       sampleInterpreter"
  using resolveExecutable_separators [of "sampleWinEnv None" None "[]"]
    resolveExecutable_separators [of "(sampleWinEnv None)\<lparr> isWindows := False \<rparr>" None "[]"]
  by (simp add: sample_defs)

text \<open>
  C9. On a Windows-like platform with \<open>executeInFileDir\<close> enabled and no workspace root
  path, executing a file whose directory has a drive letter sends the drive change and sets
  \<open>hasRanOutsideCurrentDrive\<close>, from any state of the controller, the first execution
  included.
\<close>

theorem executeFile_unknown_root:
  assumes "isWindows e" and "executeInFileDir (getSettings e (Some file))"
    and "rootPath e = None" and "hasDriveLetter (dirname e file)"
  shows "(let info = getExecuteFileArgs e (Some file) [fileToCommandArgumentForPythonExt e file]
          in terminalLog (step e (CallExecuteFile file) s) =
               terminalLog s @
                 [SendText (Some file) (stripFromColon (dirname e file) @ '':''),
                  SendText (Some file)
                    (''cd '' @ fileToCommandArgumentForPythonExt e (dirname e file)),
                  SendCommand (Some file) (command info) (args info)]
             \<and> hasRanOutsideCurrentDrive (step e (CallExecuteFile file) s))"
proof -
  have "dirname e file \<noteq> []" using assms(4) by auto
  with assms show ?thesis
    by (simp add: executeFile_def setCwdForFileExecution_def emit_def Let_def)
qed

theorem executeFile_unknown_root_witness:
  "rootPath (sampleWinEnv None) = None
   \<and> hasDriveLetter (dirname (sampleWinEnv None) sampleFileC)
   \<and> \<not> hasRanOutsideCurrentDrive initialState
   \<and> terminalLog (step (sampleWinEnv None) (CallExecuteFile sampleFileC) initialState) =
       [SendText (Some sampleFileC) ''C:'',
        SendText (Some sampleFileC) (''cd C:'' @ [backslash] @ ''proj''),
        SendCommand (Some sampleFileC) ''C:/py/python.exe'' [''-i'', sampleFileC]]
   \<and> hasRanOutsideCurrentDrive
        (step (sampleWinEnv None) (CallExecuteFile sampleFileC) initialState)"
  using executeFile_unknown_root [of "sampleWinEnv None" sampleFileC initialState]
  by (simp add: sample_defs sampleFileC_def string_defs file_defs Let_def)

text \<open>
  C10. With a workspace root and a file directory free of line breaks, the platform
  Windows-like, \<open>executeInFileDir\<close> enabled and the flag unset, the drive change is sent
  exactly when the text before the first colon of the directory and the text before the
  first colon of the root differ as strings, letter case included. For a root on
  \<open>c:\<close> and a directory on \<open>C:\<close> with the same path otherwise, the drive change
  \<open>C:\<close> is sent.
\<close>

theorem drive_comparison_case_sensitive:
  assumes "isWindows e" and "executeInFileDir (getSettings e (Some file))"
    and "rootPath e = Some root" and "dirname e file = d" and "hasDriveLetter d"
    and "\<not> hasRanOutsideCurrentDrive s"
    and "\<forall>c\<in>set root. \<not> isLineTerminator c" and "\<forall>c\<in>set d. \<not> isLineTerminator c"
  shows "terminalLog (setCwdForFileExecution e file s) =
           terminalLog s @
             (if takeWhile (\<lambda>c. c \<noteq> CHR '':'') d \<noteq> takeWhile (\<lambda>c. c \<noteq> CHR '':'') root
              then [SendText (Some file) (takeWhile (\<lambda>c. c \<noteq> CHR '':'') d @ '':'')]
              else []) @
             [SendText (Some file) (''cd '' @ fileToCommandArgumentForPythonExt e d)]"
proof -
  have "d \<noteq> []" using assms(5) by auto
  with assms show ?thesis
    by (simp add: setCwdForFileExecution_def emit_def Let_def stripFromColon_takeWhile)
qed

theorem drive_comparison_case_sensitive_witness:
  "rootPath (sampleWinEnv (Some sampleRootLower)) = Some (''c:'' @ [backslash] @ ''proj'')
   \<and> dirname (sampleWinEnv (Some sampleRootLower)) sampleFileC = ''C:'' @ [backslash] @ ''proj''
   \<and> takeWhile (\<lambda>c. c \<noteq> CHR '':'') sampleRootLower = ''c''
   \<and> terminalLog (setCwdForFileExecution (sampleWinEnv (Some sampleRootLower)) sampleFileC
        initialState) =
       [SendText (Some sampleFileC) ''C:'',
        SendText (Some sampleFileC) (''cd C:'' @ [backslash] @ ''proj'')]"
  using drive_comparison_case_sensitive [of "sampleWinEnv (Some sampleRootLower)" sampleFileC
      sampleRootLower "''C:'' @ [backslash] @ ''proj''" initialState]
  by (simp add: sample_defs sampleRootLower_def sampleFileC_def string_defs)

end
